theory Spec2Isabelle
  imports Main "HOL-Library.Word" "HOL-Library.AList" "HOL-Library.FSet"
begin

unbundle bit_operations_syntax

section \<open>Strings\<close>

text \<open>
  Strings are lists of 8-bit characters, so the model covers ASCII text. \<open>lower\<close> is
  \<open>str.lower()\<close> on such text: the letters A to Z (codes 65 to 90) move up by 32, every
  other character stays. \<open>endswith\<close> is \<open>str.endswith\<close> with one argument.
\<close>

definition lower_char :: "char \<Rightarrow> char" where
  "lower_char c =
     (let n = (of_char c :: nat) in if 65 \<le> n \<and> n \<le> 90 then char_of (n + 32) else c)"

definition lower :: "string \<Rightarrow> string" where
  "lower s = map lower_char s"

definition endswith :: "string \<Rightarrow> string \<Rightarrow> bool" where
  "endswith s t = (length t \<le> length s \<and> drop (length s - length t) s = t)"

section \<open>Configuration\<close>

text \<open>
  The tag options are Python collections of strings. Only \<open>x in c\<close> and \<open>c == d\<close> are
  used on them, so a collection is a list, a tuple or a set: a list never equals a tuple or
  a set in Python, and the three constructors are as distinct. (A \<open>str\<close> or a \<open>dict\<close>
  passed as a tag option is outside the model.)
\<close>

datatype collection = PyList "string list" | PyTuple "string list" | PySet "string fset"

fun elems :: "collection \<Rightarrow> string set" where
  "elems (PyList xs) = set xs"
| "elems (PyTuple xs) = set xs"
| "elems (PySet S) = fset S"

definition contains :: "collection \<Rightarrow> string \<Rightarrow> bool" where
  "contains c x = (x \<in> elems c)"

record AddRandomIdCommand =
  path :: string
  recursive :: bool
  exclude_tags :: collection
  include_tags :: collection
  encoding :: string
  extensions :: "string list"
  prefix :: string
  suffix :: string

definition EXTENSIONS :: "string list" where
  "EXTENSIONS = [''html'', ''hml'', ''xhtml'']"

definition EXCLUDE_TAGS :: collection where
  "EXCLUDE_TAGS = PyList [''script'', ''head'', ''title'', ''html'', ''br'', ''style'']"

definition INCLUDE_TAGS :: collection where
  "INCLUDE_TAGS = PyList [''*'']"

text \<open>The command built with no keyword argument: every option at its class default.\<close>

definition init :: AddRandomIdCommand where
  "init = \<lparr> path = ''.'', recursive = False, exclude_tags = EXCLUDE_TAGS,
            include_tags = INCLUDE_TAGS, encoding = ''utf-8'', extensions = EXTENSIONS,
            prefix = '''', suffix = '''' \<rparr>"

section \<open>Identifiers\<close>

text \<open>
  \<open>uuid.uuid4()\<close> reads 16 random bytes as a 128-bit integer, clears and sets the variant
  bits (\<open>0xc000 << 48\<close>, \<open>0x8000 << 48\<close>) and the version bits (\<open>0xf000 << 64\<close>,
  \<open>4 << 76\<close>). \<open>str\<close> of a UUID prints the integer as 32 lower-case hexadecimal digits
  (\<open>'%032x'\<close>) and cuts them 8-4-4-4-12 with hyphens.
\<close>

definition uuid4 :: "128 word \<Rightarrow> 128 word" where
  "uuid4 r =
     (((r AND NOT (push_bit 48 0xc000)) OR push_bit 48 0x8000)
        AND NOT (push_bit 64 0xf000)) OR push_bit 76 4"

definition hex_digit :: "nat \<Rightarrow> char" where
  "hex_digit d = ''0123456789abcdef'' ! d"

definition hex32 :: "128 word \<Rightarrow> string" where
  "hex32 w = map (\<lambda>i. hex_digit (unat (drop_bit (4 * (31 - i)) w AND 15))) [0..<32]"

definition str_uuid :: "128 word \<Rightarrow> string" where
  "str_uuid w =
     (let hex = hex32 w
      in take 8 hex @ ''-'' @ take 4 (drop 8 hex) @ ''-'' @ take 4 (drop 12 hex) @ ''-''
         @ take 4 (drop 16 hex) @ ''-'' @ drop 20 hex)"

text \<open>
  \<open>_new_id\<close>: its arguments \<open>document\<close>, \<open>soup\<close> and \<open>tag\<close> are unused; \<open>r\<close> is the 16
  random bytes this call of \<open>uuid4\<close> draws.
\<close>

definition new_id :: "AddRandomIdCommand \<Rightarrow> 128 word \<Rightarrow> string" where
  "new_id self r = prefix self @ str_uuid (uuid4 r) @ suffix self"

section \<open>Documents\<close>

text \<open>
  A parsed document is the list of the top-level nodes of the soup. A \<open>Tag\<close> has a name,
  its attribute dictionary (in insertion order) and its children; every other node (text,
  comment, doctype) is a \<open>NavigableString\<close>. \<open>descendants\<close> lists all nodes below the soup
  in document order, as the generator of the same name does.
\<close>

datatype node =
  Tag (name: string) (attrs: "(string \<times> string) list") (contents: "node list")
| NavigableString string

fun descendants :: "node list \<Rightarrow> node list" where
  "descendants [] = []"
| "descendants (NavigableString s # xs) = NavigableString s # descendants xs"
| "descendants (Tag nm at cs # xs) = Tag nm at cs # descendants cs @ descendants xs"

text \<open>\<open>tag.get(key)\<close>, Python's truth value of its result, and \<open>tag[key] = value\<close>.\<close>

definition get :: "(string \<times> string) list \<Rightarrow> string \<Rightarrow> string option" where
  "get at key = map_of at key"

fun truthy :: "string option \<Rightarrow> bool" where
  "truthy None = False"
| "truthy (Some v) = (v \<noteq> [])"

definition setitem :: "(string \<times> string) list \<Rightarrow> string \<Rightarrow> string \<Rightarrow> (string \<times> string) list" where
  "setitem at key v = AList.update key v at"

fun is_valid_tag :: "AddRandomIdCommand \<Rightarrow> node \<Rightarrow> bool" where
  "is_valid_tag self (Tag nm at cs) =
     (\<not> contains (exclude_tags self) (lower nm) \<and>
      (include_tags self = INCLUDE_TAGS \<or> contains (include_tags self) (lower nm)))"
| "is_valid_tag self (NavigableString s) = False"

text \<open>
  The loop of \<open>_include_id\<close> over \<open>soup.descendants\<close>. It changes attributes only, never
  the shape of the tree, so it is the recursion over the tree in document order: a tag is
  visited before its children, its children before its later siblings. \<open>rand k\<close> is the
  \<open>k\<close>-th draw of random bytes and \<open>n\<close> counts the draws made so far; the count is
  returned with the new nodes.
\<close>

fun for_descendants ::
  "AddRandomIdCommand \<Rightarrow> (nat \<Rightarrow> 128 word) \<Rightarrow> nat \<Rightarrow> node list \<Rightarrow> node list \<times> nat" where
  "for_descendants self rand n [] = ([], n)"
| "for_descendants self rand n (NavigableString s # xs) =
     (case for_descendants self rand n xs of (xs', n') \<Rightarrow> (NavigableString s # xs', n'))"
| "for_descendants self rand n (Tag nm at cs # xs) =
     (if \<not> is_valid_tag self (Tag nm at cs) \<or> truthy (get at ''id'') then
        (case for_descendants self rand n cs of (cs', n1) \<Rightarrow>
         case for_descendants self rand n1 xs of (xs', n2) \<Rightarrow>
           (Tag nm at cs' # xs', n2))
      else
        (case for_descendants self rand (Suc n) cs of (cs', n1) \<Rightarrow>
         case for_descendants self rand n1 xs of (xs', n2) \<Rightarrow>
           (Tag nm (setitem at ''id'' (new_id self (rand n))) cs' # xs', n2)))"

text \<open>
  \<open>_include_id\<close>: parse, run the loop, serialise. The parser and the serialiser belong to
  BeautifulSoup and are parameters (\<open>BeautifulSoup(document, 'html.parser')\<close> and
  \<open>str(soup)\<close>).
\<close>

definition include_id ::
  "(string \<Rightarrow> node list) \<Rightarrow> (node list \<Rightarrow> string) \<Rightarrow> AddRandomIdCommand \<Rightarrow>
   (nat \<Rightarrow> 128 word) \<Rightarrow> nat \<Rightarrow> string \<Rightarrow> string \<times> nat" where
  "include_id BeautifulSoup str_soup self rand n document =
     (let soup = BeautifulSoup document
      in case for_descendants self rand n soup of (soup', n') \<Rightarrow> (str_soup soup', n'))"

section \<open>File discovery\<close>

text \<open>
  \<open>_is_valid_extension\<close>: the loop over the configured extensions returns at the first one
  the lower-cased file name ends with. A dot is put in front of an extension only when the
  extension contains no dot anywhere (\<open>"." not in ext\<close>).
\<close>

fun is_valid_extension_loop :: "string list \<Rightarrow> string \<Rightarrow> bool" where
  "is_valid_extension_loop [] filename = False"
| "is_valid_extension_loop (ext # exts) filename =
     (let extension = (if CHR ''.'' \<notin> set ext then ''.'' else []) @ lower ext
      in if endswith (lower filename) extension then True
         else is_valid_extension_loop exts filename)"

definition is_valid_extension :: "AddRandomIdCommand \<Rightarrow> string \<Rightarrow> bool" where
  "is_valid_extension self filename = is_valid_extension_loop (extensions self) filename"

text \<open>
  What \<open>os.walk\<close> meets on disk. A directory holds named entries in the order \<open>scandir\<close>
  lists them. \<open>Opaque\<close> is an entry that \<open>os.walk\<close> counts among the directories and yields
  nothing for: below the root, a symbolic link to a directory (\<open>followlinks\<close> is off) or a
  directory that cannot be listed (the error is ignored, \<open>onerror\<close> is not set).
  Everything else is a \<open>File\<close>. For the root itself \<open>os.walk\<close> makes no link test: a
  root that is a link to a directory is listed by \<open>scandir\<close> and is a \<open>Directory\<close> here,
  and an \<open>Opaque\<close> root is a directory that cannot be listed.
\<close>

datatype entry = File | Directory "(string \<times> entry) list" | Opaque

text \<open>\<open>os.path.join\<close> of two components, POSIX flavour.\<close>

definition join :: "string \<Rightarrow> string \<Rightarrow> string" where
  "join a b =
     (if take 1 b = ''/'' then b
      else if a = [] \<or> endswith a ''/'' then a @ b
      else a @ ''/'' @ b)"

definition dirnames :: "(string \<times> entry) list \<Rightarrow> string list" where
  "dirnames es = map fst (filter (\<lambda>e. snd e \<noteq> File) es)"

definition filenames :: "(string \<times> entry) list \<Rightarrow> string list" where
  "filenames es = map fst (filter (\<lambda>e. snd e = File) es)"

text \<open>
  \<open>os.walk\<close>, top down: the triple of the directory itself, then the walk of each
  directory of its \<open>dirs\<close> list in turn. The caller may edit that list before the walk
  goes on; \<open>_find_file_names\<close> either leaves it alone or clears it, which is the flag
  \<open>keep\<close>.
\<close>

fun walk :: "bool \<Rightarrow> string \<Rightarrow> (string \<times> entry) list \<Rightarrow> (string \<times> string list \<times> string list) list"
  and walk_dirs :: "bool \<Rightarrow> string \<Rightarrow> (string \<times> entry) list \<Rightarrow> (string \<times> string list \<times> string list) list"
where
  "walk keep dirpath es =
     (dirpath, dirnames es, filenames es) # (if keep then walk_dirs keep dirpath es else [])"
| "walk_dirs keep dirpath [] = []"
| "walk_dirs keep dirpath ((d, File) # rest) = walk_dirs keep dirpath rest"
| "walk_dirs keep dirpath ((d, Opaque) # rest) = walk_dirs keep dirpath rest"
| "walk_dirs keep dirpath ((d, Directory es) # rest) =
     walk keep (join dirpath d) es @ walk_dirs keep dirpath rest"

text \<open>
  \<open>os.walk(dirpath)\<close> from what \<open>dirpath\<close> names: nothing is yielded when the path
  does not exist or is not a directory that can be listed, since the error of \<open>scandir\<close>
  is ignored.
\<close>

fun os_walk :: "bool \<Rightarrow> string \<Rightarrow> entry option \<Rightarrow> (string \<times> string list \<times> string list) list" where
  "os_walk keep dirpath (Some (Directory es)) = walk keep dirpath es"
| "os_walk keep dirpath (Some File) = []"
| "os_walk keep dirpath (Some Opaque) = []"
| "os_walk keep dirpath None = []"

section \<open>The file system and the run\<close>

datatype error = OSError | UnicodeError

text \<open>
  The file system as the command sees it: what a path names (for \<open>os.walk\<close>), what
  reading a file under an encoding gives (its text or the error raised), and the error
  that writing a text to a file under an encoding raises, if any.
\<close>

record filesystem =
  entry_at :: "string \<Rightarrow> entry option"
  read_result :: "string \<Rightarrow> string \<Rightarrow> error + string"
  save_error :: "string \<Rightarrow> string \<Rightarrow> string \<Rightarrow> error option"

definition find_file_names :: "AddRandomIdCommand \<Rightarrow> filesystem \<Rightarrow> string list" where
  "find_file_names self fs =
     concat (map (\<lambda>(root, directories, files).
                    filter (is_valid_extension self) (map (join root) files))
                 (os_walk (recursive self) (path self) (entry_at fs (path self))))"

definition read :: "AddRandomIdCommand \<Rightarrow> filesystem \<Rightarrow> string \<Rightarrow> error + string" where
  "read self fs filename = read_result fs (encoding self) filename"

definition save :: "AddRandomIdCommand \<Rightarrow> filesystem \<Rightarrow> string \<Rightarrow> string \<Rightarrow> error + filesystem" where
  "save self fs filename document =
     (case save_error fs (encoding self) filename document of
        Some e \<Rightarrow> Inl e
      | None \<Rightarrow>
          Inr (fs\<lparr>read_result :=
                 (read_result fs)(encoding self := (read_result fs (encoding self))
                                    (filename := Inr document))\<rparr>))"

text \<open>
  \<open>execute\<close>: the file names are found once, then each file is read, transformed and
  written back. An error ends the run at once (\<open>Inl\<close>); what the files hold after an
  aborted run is not described.
\<close>

fun execute_loop ::
  "(string \<Rightarrow> node list) \<Rightarrow> (node list \<Rightarrow> string) \<Rightarrow> AddRandomIdCommand \<Rightarrow>
   (nat \<Rightarrow> 128 word) \<Rightarrow> nat \<Rightarrow> string list \<Rightarrow> filesystem \<Rightarrow> error + filesystem" where
  "execute_loop BeautifulSoup str_soup self rand n [] fs = Inr fs"
| "execute_loop BeautifulSoup str_soup self rand n (filename # file_names) fs =
     (case read self fs filename of
        Inl e \<Rightarrow> Inl e
      | Inr document \<Rightarrow>
          (case include_id BeautifulSoup str_soup self rand n document of
             (document_with_id, n') \<Rightarrow>
               (case save self fs filename document_with_id of
                  Inl e \<Rightarrow> Inl e
                | Inr fs' \<Rightarrow> execute_loop BeautifulSoup str_soup self rand n' file_names fs')))"

definition execute ::
  "(string \<Rightarrow> node list) \<Rightarrow> (node list \<Rightarrow> string) \<Rightarrow> AddRandomIdCommand \<Rightarrow>
   (nat \<Rightarrow> 128 word) \<Rightarrow> filesystem \<Rightarrow> error + filesystem" where
  "execute BeautifulSoup str_soup self rand fs =
     execute_loop BeautifulSoup str_soup self rand 0 (find_file_names self fs) fs"

section \<open>Notions used in the statements\<close>

text \<open>
  A node without its children, and the body of the loop of \<open>_include_id\<close> on one node
  given the random bytes it would draw: the two describe what the loop does to the node at
  one position of the document.
\<close>

fun shallow :: "node \<Rightarrow> node" where
  "shallow (Tag nm at cs) = Tag nm at []"
| "shallow (NavigableString s) = NavigableString s"

fun visit :: "AddRandomIdCommand \<Rightarrow> 128 word \<Rightarrow> node \<Rightarrow> node" where
  "visit self r (Tag nm at cs) =
     (if \<not> is_valid_tag self (Tag nm at cs) \<or> truthy (get at ''id'') then Tag nm at cs
      else Tag nm (setitem at ''id'' (new_id self r)) cs)"
| "visit self r (NavigableString s) = NavigableString s"

text \<open>
  The document of the specification's first scenario,
  \<open><html><body><div>x</div><p id="k">y</p></body></html>\<close>, and a source of random bytes.
\<close>

definition example_soup :: "node list" where
  "example_soup =
     [Tag ''html'' []
        [Tag ''body'' []
           [Tag ''div'' [] [NavigableString ''x''],
            Tag ''p'' [(''id'', ''k'')] [NavigableString ''y'']]]]"

definition example_rand :: "nat \<Rightarrow> 128 word" where
  "example_rand k = of_nat k * 0x0123456789abcdef0123456789abcdef"




text \<open>
  The shape of a version-4 UUID in text: 36 characters, lower-case hexadecimal digits in
  groups of 8, 4, 4, 4 and 12 with a hyphen between two groups, the first digit of the
  third group \<open>4\<close> (the version) and the first digit of the fourth group one of \<open>8\<close>,
  \<open>9\<close>, \<open>a\<close>, \<open>b\<close> (the variant).
\<close>

definition is_hex :: "char \<Rightarrow> bool" where
  "is_hex c = (c \<in> set ''0123456789abcdef'')"

definition is_uuid4_string :: "string \<Rightarrow> bool" where
  "is_uuid4_string s =
     (length s = 36 \<and>
      list_all is_hex (take 8 s) \<and> s ! 8 = CHR ''-'' \<and>
      list_all is_hex (take 4 (drop 9 s)) \<and> s ! 13 = CHR ''-'' \<and>
      s ! 14 = CHR ''4'' \<and> list_all is_hex (take 3 (drop 15 s)) \<and> s ! 18 = CHR ''-'' \<and>
      s ! 19 \<in> set ''89ab'' \<and> list_all is_hex (take 3 (drop 20 s)) \<and> s ! 23 = CHR ''-'' \<and>
      list_all is_hex (drop 24 s))"

text \<open>
  The tag test as the specification words it, with the configured names lower-cased as
  well as the name of the element; it is compared with \<open>is_valid_tag\<close> below.
\<close>

fun is_valid_tag_lowering_both :: "AddRandomIdCommand \<Rightarrow> node \<Rightarrow> bool" where
  "is_valid_tag_lowering_both self (Tag nm at cs) =
     (lower nm \<notin> lower ` elems (exclude_tags self) \<and>
      (include_tags self = INCLUDE_TAGS \<or> lower nm \<in> lower ` elems (include_tags self)))"
| "is_valid_tag_lowering_both self (NavigableString s) = False"

text \<open>
  The extension test as the specification words it: every configured extension is given
  a leading dot unless it starts with one; it is compared with \<open>is_valid_extension\<close>
  below.
\<close>

definition with_leading_dot :: "string \<Rightarrow> string" where
  "with_leading_dot ext = (if take 1 ext = ''.'' then ext else ''.'' @ ext)"

definition is_valid_extension_leading_dot :: "AddRandomIdCommand \<Rightarrow> string \<Rightarrow> bool" where
  "is_valid_extension_leading_dot self filename =
     list_ex (\<lambda>ext. endswith (lower filename) (with_leading_dot (lower ext))) (extensions self)"

text \<open>
  \<open>file_at es ds f\<close>: below a directory with the entries \<open>es\<close>, the chain of
  subdirectories \<open>ds\<close> leads to a directory that holds the file \<open>f\<close>.
\<close>

fun file_at :: "(string \<times> entry) list \<Rightarrow> string list \<Rightarrow> string \<Rightarrow> bool" where
  "file_at es [] f = ((f, File) \<in> set es)"
| "file_at es (d # ds) f =
     list_ex (\<lambda>e. fst e = d \<and> (case snd e of Directory es' \<Rightarrow> file_at es' ds f | _ \<Rightarrow> False)) es"

text \<open>
  A parser and a serialiser for the example: the text of the transformed document is
  parsed with one more text node in front, the elements and their \<open>id\<close> values as they
  were. And a small directory tree whose only readable file is \<open>./index.html\<close>.
\<close>

definition example_document :: string where
  "example_document = ''<html><body><div>x</div><p id=k>y</p></body></html>''"

definition example_reparsed :: "node list" where
  "example_reparsed =
     [NavigableString ''html'',
      Tag ''html'' []
        [Tag ''body'' [(''id'', new_id init (example_rand 0))]
           [Tag ''div'' [(''id'', new_id init (example_rand 1))] [NavigableString ''x''],
            Tag ''p'' [(''id'', ''k'')] [NavigableString ''y'']]]]"

definition example_BeautifulSoup :: "string \<Rightarrow> node list" where
  "example_BeautifulSoup document =
     (if document = example_document then example_soup else example_reparsed)"

definition example_str_soup :: "node list \<Rightarrow> string" where
  "example_str_soup soup = (if soup = example_soup then example_document else ''transformed'')"

definition example_listing :: "(string \<times> entry) list" where
  "example_listing =
     [(''index.html'', File), (''notes.txt'', File),
      (''sub'', Directory [(''page.HTML'', File), (''deep'', Directory [(''a.xhtml'', File)])]),
      (''link'', Opaque)]"

definition example_fs :: filesystem where
  "example_fs =
     \<lparr> entry_at = (\<lambda>p. if p = ''.'' then Some (Directory example_listing)
                         else if p = ''./index.html'' then Some File else None),
       read_result = (\<lambda>enc p. if p = ''./index.html'' then Inr example_document
                                else Inl OSError),
       save_error = (\<lambda>enc p doc. None) \<rparr>"

section \<open>The loop over the descendants\<close>

lemma length_descendants_for:
  "length (descendants (fst (for_descendants self rand n soup))) = length (descendants soup)"
  by (induction self rand n soup rule: for_descendants.induct)
     (auto split: prod.splits)

text \<open>
  The node at a position of the document after the loop is the node at that position
  before it, taken through the body of the loop with some draw, up to its children.
\<close>

lemma nth_descendants_for:
  "i < length (descendants soup) \<Longrightarrow>
   \<exists>k. shallow (descendants (fst (for_descendants self rand n soup)) ! i) =
       shallow (visit self (rand k) (descendants soup ! i))"
proof (induction soup arbitrary: n i rule: descendants.induct)
  case 1
  then show ?case by simp
next
  case (2 s xs)
  show ?case
  proof (cases i)
    case 0
    then show ?thesis by (simp split: prod.splits)
  next
    case (Suc j)
    with 2 show ?thesis by (simp split: prod.splits) (metis fst_conv)
  qed
next
  case (3 nm at cs xs)
  let ?skip = "\<not> is_valid_tag self (Tag nm at cs) \<or> truthy (get at ''id'')"
  define n0 where "n0 = (if ?skip then n else Suc n)"
  define at' where "at' = (if ?skip then at else setitem at ''id'' (new_id self (rand n)))"
  obtain cs' n1 where c: "for_descendants self rand n0 cs = (cs', n1)" by force
  obtain xs' n2 where x: "for_descendants self rand n1 xs = (xs', n2)" by force
  have out: "fst (for_descendants self rand n (Tag nm at cs # xs)) = Tag nm at' cs' # xs'"
    using c x by (cases ?skip) (simp_all add: n0_def at'_def del: is_valid_tag.simps)
  have lc: "length (descendants cs') = length (descendants cs)"
    using length_descendants_for[of self rand n0 cs] c by simp
  show ?case
  proof (cases i)
    case 0
    have "shallow (Tag nm at' cs') = shallow (visit self (rand n) (Tag nm at cs))"
      by (simp add: at'_def del: is_valid_tag.simps)
    with 0 out show ?thesis by auto
  next
    case (Suc j)
    show ?thesis
    proof (cases "j < length (descendants cs)")
      case True
      from "3.IH"(1)[OF True, of n0] c obtain k where
        "shallow (descendants cs' ! j) = shallow (visit self (rand k) (descendants cs ! j))"
        by auto
      with True Suc out lc show ?thesis by (auto simp: nth_append)
    next
      case False
      with "3.prems" Suc have j: "j - length (descendants cs) < length (descendants xs)"
        by simp
      from "3.IH"(2)[OF j, of n1] x obtain k where
        "shallow (descendants xs' ! (j - length (descendants cs))) =
         shallow (visit self (rand k) (descendants xs ! (j - length (descendants cs))))"
        by auto
      with False Suc out lc show ?thesis by (auto simp: nth_append)
    qed
  qed
qed

lemma nth_descendants_Tag:
  assumes "i < length (descendants soup)" and "descendants soup ! i = Tag nm at cs"
  shows "\<exists>k cs'. descendants (fst (for_descendants self rand n soup)) ! i =
           Tag nm (if \<not> is_valid_tag self (Tag nm at cs) \<or> truthy (get at ''id'') then at
                   else setitem at ''id'' (new_id self (rand k))) cs'"
proof -
  from nth_descendants_for[OF assms(1), of self rand n] assms(2) obtain k where
    k: "shallow (descendants (fst (for_descendants self rand n soup)) ! i) =
        shallow (visit self (rand k) (Tag nm at cs))" by auto
  show ?thesis
    using k by (cases "descendants (fst (for_descendants self rand n soup)) ! i")
      (auto simp del: is_valid_tag.simps split: if_splits)
qed

lemma length_str_uuid: "length (str_uuid w) = 36"
  by (simp add: str_uuid_def hex32_def Let_def)

lemma new_id_not_Nil: "new_id self r \<noteq> []"
  using length_str_uuid[of "uuid4 r"] by (auto simp: new_id_def)

lemma get_setitem: "get (setitem at key v) key = Some v"
  by (simp add: get_def setitem_def update_conv')

section \<open>Which elements receive an identifier\<close>

text \<open>
  Claim C1. Take any element of a parsed document, at position \<open>i\<close> in document order, with
  name \<open>nm\<close> and attributes \<open>at\<close>. After the loop the node at position \<open>i\<close> is an element of
  the same name. If the element had no non-empty \<open>id\<close>, its lower-cased name is not in
  \<open>exclude_tags\<close>, and \<open>include_tags\<close> is the list \<open>['*']\<close> or holds the lower-cased name,
  then its attributes are the old ones with \<open>id\<close> set to a generated identifier, and its
  \<open>id\<close> has changed. In every other case its attributes are the old ones: in particular a
  name in both lists is excluded.
\<close>

theorem id_assigned_iff_eligible:
  assumes "i < length (descendants soup)" and "descendants soup ! i = Tag nm at cs"
  shows "\<exists>at' cs'. descendants (fst (for_descendants self rand n soup)) ! i = Tag nm at' cs' \<and>
     (if \<not> truthy (get at ''id'') \<and> \<not> contains (exclude_tags self) (lower nm) \<and>
         (include_tags self = PyList [''*''] \<or> contains (include_tags self) (lower nm))
      then (\<exists>k. at' = setitem at ''id'' (new_id self (rand k))) \<and> get at' ''id'' \<noteq> get at ''id''
      else at' = at)"
proof -
  from nth_descendants_Tag[OF assms, of self rand n] obtain k cs' where
    out: "descendants (fst (for_descendants self rand n soup)) ! i =
           Tag nm (if \<not> is_valid_tag self (Tag nm at cs) \<or> truthy (get at ''id'') then at
                   else setitem at ''id'' (new_id self (rand k))) cs'" by blast
  have "get (setitem at ''id'' (new_id self (rand k))) ''id'' \<noteq> get at ''id''"
    if "\<not> truthy (get at ''id'')"
    using that new_id_not_Nil[of self "rand k"] by (cases "get at ''id''") (auto simp: get_setitem)
  with out show ?thesis
    by (auto simp: INCLUDE_TAGS_def)
qed

theorem id_assigned_iff_eligible_witness:
  "1 < length (descendants example_soup) \<and>
   descendants example_soup ! 1 =
     Tag ''body'' [] [Tag ''div'' [] [NavigableString ''x''],
                      Tag ''p'' [(''id'', ''k'')] [NavigableString ''y'']] \<and>
   (\<exists>at' cs'. descendants (fst (for_descendants init example_rand 0 example_soup)) ! 1 =
       Tag ''body'' at' cs' \<and>
       (\<exists>k. at' = setitem [] ''id'' (new_id init (example_rand k))) \<and>
       get at' ''id'' \<noteq> get [] ''id'')"
proof -
  have h1: "1 < length (descendants example_soup)"
    by (simp add: example_soup_def)
  have h2: "descendants example_soup ! 1 =
     Tag ''body'' [] [Tag ''div'' [] [NavigableString ''x''],
                      Tag ''p'' [(''id'', ''k'')] [NavigableString ''y'']]"
    by (simp add: example_soup_def)
  have e: "\<not> contains (exclude_tags init) (lower ''body'')"
    by (simp add: contains_def init_def EXCLUDE_TAGS_def lower_def lower_char_def)
  have i: "include_tags init = PyList [''*'']"
    by (simp add: init_def INCLUDE_TAGS_def)
  show ?thesis
    using h1 h2 e i id_assigned_iff_eligible[OF h1 h2, of init example_rand 0]
    by (simp add: get_def)
qed

text \<open>
  Claim C5. An element that carries a non-empty \<open>id\<close> before the loop has the same
  attributes after it, its \<open>id\<close> among them, whatever the configuration.
\<close>

theorem existing_id_unchanged:
  assumes "i < length (descendants soup)" and "descendants soup ! i = Tag nm at cs"
    and "truthy (get at ''id'')"
  shows "\<exists>cs'. descendants (fst (for_descendants self rand n soup)) ! i = Tag nm at cs'"
  using nth_descendants_Tag[OF assms(1,2), of self rand n] assms(3) by auto

theorem existing_id_unchanged_witness:
  "4 < length (descendants example_soup) \<and>
   descendants example_soup ! 4 = Tag ''p'' [(''id'', ''k'')] [NavigableString ''y''] \<and>
   truthy (get [(''id'', ''k'')] ''id'') \<and>
   (\<exists>cs'. descendants (fst (for_descendants init example_rand 0 example_soup)) ! 4 =
      Tag ''p'' [(''id'', ''k'')] cs')"
proof -
  have h1: "4 < length (descendants example_soup)"
    by (simp add: example_soup_def)
  have h2: "descendants example_soup ! 4 = Tag ''p'' [(''id'', ''k'')] [NavigableString ''y'']"
    by (simp add: example_soup_def)
  have h3: "truthy (get [(''id'', ''k'')] ''id'')"
    by (simp add: get_def)
  show ?thesis
    using h1 h2 h3 existing_id_unchanged[OF h1 h2 h3, of init example_rand 0] by simp
qed

text \<open>
  Claim C9. When \<open>include_tags\<close> is anything but the one-element list \<open>['*']\<close> (a longer
  list, a tuple, a set), the star has no special meaning: an element receives an
  identifier only if its lower-cased name is a member of \<open>include_tags\<close>, besides having
  no non-empty \<open>id\<close> and not being excluded; otherwise its attributes stay as they were.
\<close>

theorem sentinel_only_exact_list:
  assumes "include_tags self \<noteq> PyList [''*'']"
    and "i < length (descendants soup)" and "descendants soup ! i = Tag nm at cs"
  shows "\<exists>at' cs'. descendants (fst (for_descendants self rand n soup)) ! i = Tag nm at' cs' \<and>
     (if \<not> truthy (get at ''id'') \<and> \<not> contains (exclude_tags self) (lower nm) \<and>
         contains (include_tags self) (lower nm)
      then \<exists>k. at' = setitem at ''id'' (new_id self (rand k))
      else at' = at)"
proof -
  from nth_descendants_Tag[OF assms(2,3), of self rand n] obtain k cs' where
    out: "descendants (fst (for_descendants self rand n soup)) ! i =
           Tag nm (if \<not> is_valid_tag self (Tag nm at cs) \<or> truthy (get at ''id'') then at
                   else setitem at ''id'' (new_id self (rand k))) cs'" by blast
  have v: "is_valid_tag self (Tag nm at cs) =
           (\<not> contains (exclude_tags self) (lower nm) \<and> contains (include_tags self) (lower nm))"
    using assms(1) by (simp add: INCLUDE_TAGS_def)
  show ?thesis
  proof (cases "\<not> truthy (get at ''id'') \<and> \<not> contains (exclude_tags self) (lower nm) \<and>
         contains (include_tags self) (lower nm)")
    case True
    with out v show ?thesis by auto
  next
    case False
    with out v show ?thesis by auto
  qed
qed

theorem sentinel_only_exact_list_witness:
  "include_tags (init\<lparr>include_tags := PyList [''*'', ''div'']\<rparr>) \<noteq> PyList [''*''] \<and>
   1 < length (descendants example_soup) \<and>
   descendants example_soup ! 1 =
     Tag ''body'' [] [Tag ''div'' [] [NavigableString ''x''],
                      Tag ''p'' [(''id'', ''k'')] [NavigableString ''y'']] \<and>
   (\<exists>cs'. descendants (fst (for_descendants (init\<lparr>include_tags := PyList [''*'', ''div'']\<rparr>)
       example_rand 0 example_soup)) ! 1 = Tag ''body'' [] cs')"
proof -
  let ?self = "init\<lparr>include_tags := PyList [''*'', ''div'']\<rparr>"
  have h0: "include_tags ?self \<noteq> PyList [''*'']" by simp
  have h1: "1 < length (descendants example_soup)"
    by (simp add: example_soup_def)
  have h2: "descendants example_soup ! 1 =
     Tag ''body'' [] [Tag ''div'' [] [NavigableString ''x''],
                      Tag ''p'' [(''id'', ''k'')] [NavigableString ''y'']]"
    by (simp add: example_soup_def)
  have e: "\<not> contains (include_tags ?self) (lower ''body'')"
    by (simp add: contains_def lower_def lower_char_def)
  show ?thesis
    using h0 h1 h2 e sentinel_only_exact_list[OF h0 h1 h2, of example_rand 0]
    by simp
qed

text \<open>A tuple or a set that holds only the star is not the sentinel either.\<close>

lemma star_in_tuple_or_set_is_literal:
  "\<not> is_valid_tag (init\<lparr>include_tags := PyTuple [''*'']\<rparr>) (Tag ''div'' [] [])"
  "\<not> is_valid_tag (init\<lparr>include_tags := PySet {|''*''|}\<rparr>) (Tag ''div'' [] [])"
  "is_valid_tag (init\<lparr>include_tags := PyList [''*'']\<rparr>) (Tag ''div'' [] [])"
  by (simp_all add: init_def INCLUDE_TAGS_def EXCLUDE_TAGS_def contains_def lower_def
        lower_char_def)

section \<open>Elements below an excluded element\<close>

text \<open>The descendants of a tag follow it directly in the document order.\<close>

lemma descendants_subtree:
  "j < length (descendants soup) \<Longrightarrow> descendants soup ! j = Tag nm at cs \<Longrightarrow>
   i < length (descendants cs) \<Longrightarrow>
   j + 1 + i < length (descendants soup) \<and> descendants soup ! (j + 1 + i) = descendants cs ! i"
proof (induction soup arbitrary: j rule: descendants.induct)
  case 1
  then show ?case by simp
next
  case (2 s xs)
  then show ?case by (cases j) auto
next
  case (3 nm0 at0 cs0 xs)
  show ?case
  proof (cases j)
    case 0
    with "3.prems" show ?thesis by (simp add: nth_append)
  next
    case (Suc j')
    show ?thesis
    proof (cases "j' < length (descendants cs0)")
      case True
      with "3.prems" Suc have "descendants cs0 ! j' = Tag nm at cs" by (simp add: nth_append)
      from "3.IH"(1)[OF True this "3.prems"(3)] Suc True show ?thesis
        by (simp add: nth_append)
    next
      case False
      with "3.prems" Suc have a: "j' - length (descendants cs0) < length (descendants xs)"
        and b: "descendants xs ! (j' - length (descendants cs0)) = Tag nm at cs"
        by (simp_all add: nth_append)
      have e: "Suc (j' + i) - length (descendants cs0) =
               Suc (j' - length (descendants cs0) + i)"
        using False by simp
      from "3.IH"(2)[OF a b "3.prems"(3)]
      have f: "j' - length (descendants cs0) + 1 + i < length (descendants xs)"
        and g: "descendants xs ! (j' - length (descendants cs0) + 1 + i) = descendants cs ! i"
        by simp_all
      from f False have h: "Suc (j' + i) < length (descendants cs0) + length (descendants xs)"
        by arith
      from False have k: "\<not> j' + i < length (descendants cs0)" by arith
      from g h k Suc show ?thesis
        by (simp add: nth_append e)
    qed
  qed
qed

text \<open>
  Claim C10. Take an excluded element at position \<open>j\<close> of the document and any element
  below it, at position \<open>i\<close> among the descendants of the excluded one. That element sits
  at position \<open>j + 1 + i\<close> of the document, and if it is eligible by its own name and
  attributes it receives a generated identifier: after the loop its \<open>id\<close> is that
  identifier, which it did not have before. Exclusion does not pass down.
\<close>

theorem exclusion_not_hereditary:
  assumes "j < length (descendants soup)" and "descendants soup ! j = Tag nm at cs"
    and "contains (exclude_tags self) (lower nm)"
    and "i < length (descendants cs)" and "descendants cs ! i = Tag nm' at' cs'"
    and "\<not> truthy (get at' ''id'')" and "\<not> contains (exclude_tags self) (lower nm')"
    and "include_tags self = PyList [''*''] \<or> contains (include_tags self) (lower nm')"
  shows "descendants soup ! (j + 1 + i) = Tag nm' at' cs' \<and>
         (\<exists>k at'' cs''. descendants (fst (for_descendants self rand n soup)) ! (j + 1 + i) =
            Tag nm' at'' cs'' \<and>
            at'' = setitem at' ''id'' (new_id self (rand k)) \<and>
            get at'' ''id'' = Some (new_id self (rand k)) \<and>
            get at'' ''id'' \<noteq> get at' ''id'')"
proof -
  from descendants_subtree[OF assms(1,2,4)] assms(5)
  have a: "j + 1 + i < length (descendants soup)"
    and b: "descendants soup ! (j + 1 + i) = Tag nm' at' cs'" by simp_all
  from nth_descendants_Tag[OF a b, of self rand n] assms(6,7,8) obtain k cs'' where
    out: "descendants (fst (for_descendants self rand n soup)) ! (j + 1 + i) =
            Tag nm' (setitem at' ''id'' (new_id self (rand k))) cs''"
    by (auto simp: INCLUDE_TAGS_def)
  have g: "get (setitem at' ''id'' (new_id self (rand k))) ''id'' = Some (new_id self (rand k))"
    by (rule get_setitem)
  have "get at' ''id'' \<noteq> Some (new_id self (rand k))"
    using assms(6) new_id_not_Nil[of self "rand k"] by (cases "get at' ''id''") auto
  with b out g show ?thesis by auto
qed

theorem exclusion_not_hereditary_witness:
  "0 < length (descendants example_soup) \<and>
   descendants example_soup ! 0 = Tag ''html'' [] (contents (hd example_soup)) \<and>
   contains (exclude_tags init) (lower ''html'') \<and>
   1 < length (descendants (contents (hd example_soup))) \<and>
   descendants (contents (hd example_soup)) ! 1 = Tag ''div'' [] [NavigableString ''x''] \<and>
   \<not> contains (exclude_tags init) (lower ''div'') \<and>
   descendants example_soup ! 2 = Tag ''div'' [] [NavigableString ''x''] \<and>
   (\<exists>k at'' cs''. descendants (fst (for_descendants init example_rand 0 example_soup)) ! 2 =
      Tag ''div'' at'' cs'' \<and>
      at'' = setitem [] ''id'' (new_id init (example_rand k)) \<and>
      get at'' ''id'' = Some (new_id init (example_rand k)) \<and>
      get at'' ''id'' \<noteq> None)"
proof -
  have h1: "0 < length (descendants example_soup)"
    by (simp add: example_soup_def)
  have h2: "descendants example_soup ! 0 = Tag ''html'' [] (contents (hd example_soup))"
    by (simp add: example_soup_def)
  have h3: "contains (exclude_tags init) (lower ''html'')"
    by (simp add: contains_def init_def EXCLUDE_TAGS_def lower_def lower_char_def)
  have h4: "1 < length (descendants (contents (hd example_soup)))"
    by (simp add: example_soup_def)
  have h5: "descendants (contents (hd example_soup)) ! 1 = Tag ''div'' [] [NavigableString ''x'']"
    by (simp add: example_soup_def)
  have h6: "\<not> truthy (get [] ''id'')" by (simp add: get_def)
  have h7: "\<not> contains (exclude_tags init) (lower ''div'')"
    by (simp add: contains_def init_def EXCLUDE_TAGS_def lower_def lower_char_def)
  have h8: "include_tags init = PyList [''*''] \<or> contains (include_tags init) (lower ''div'')"
    by (simp add: init_def INCLUDE_TAGS_def)
  have g: "get [] ''id'' = None" by (simp add: get_def)
  show ?thesis
    using h1 h2 h3 h4 h5 h7 exclusion_not_hereditary[OF h1 h2 h3 h4 h5 h6 h7 h8, of example_rand 0]
    by (simp add: numeral_2_eq_2 g)
qed

section \<open>A second run\<close>






lemma example_soup_first_run:
  "fst (for_descendants init example_rand 0 example_soup) =
     [Tag ''html'' []
        [Tag ''body'' [(''id'', new_id init (example_rand 0))]
           [Tag ''div'' [(''id'', new_id init (example_rand 1))] [NavigableString ''x''],
            Tag ''p'' [(''id'', ''k'')] [NavigableString ''y'']]]]"
  by (simp add: example_soup_def init_def EXCLUDE_TAGS_def INCLUDE_TAGS_def contains_def
       lower_def lower_char_def get_def setitem_def)

lemma example_soup_changes:
  "fst (for_descendants init example_rand 0 example_soup) \<noteq> example_soup"
  unfolding example_soup_first_run by (simp add: example_soup_def)


section \<open>The shape of an identifier\<close>

text \<open>Setting a bit field of a word, and reading a field that the setting leaves alone.\<close>

lemma field_set:
  fixes r y :: "'a::len word"
  assumes "k + m \<le> LENGTH('a)"
  shows "drop_bit k ((r AND NOT (push_bit k (mask m))) OR push_bit k (y AND mask m)) AND mask m =
         y AND mask m"
  using assms by (intro bit_word_eqI) (auto simp: bit_simps dest: bit_imp_le_length)

lemma field_keep:
  fixes r y :: "'a::len word"
  assumes "j + m \<le> k \<or> k + l \<le> j"
  shows "drop_bit j ((r AND NOT (push_bit k (mask l))) OR push_bit k (y AND mask l)) AND mask m =
         drop_bit j r AND mask m"
  using assms by (intro bit_word_eqI) (auto simp: bit_simps dest: bit_imp_le_length)

lemma drop_bit_field:
  fixes w :: "'a::len word"
  shows "drop_bit a (drop_bit b w AND mask (a + c)) = drop_bit (b + a) w AND mask c"
  by (intro bit_word_eqI) (auto simp: bit_simps ac_simps dest: bit_imp_le_length)

lemma uuid4_fields:
  "uuid4 r = ((r AND NOT (push_bit 62 (mask 2))) OR push_bit 62 (2 AND mask 2))
               AND NOT (push_bit 76 (mask 4)) OR push_bit 76 (4 AND mask 4)"
  by (simp add: uuid4_def mask_eq_exp_minus_1)

lemma version_nibble: "drop_bit 76 (uuid4 r) AND 15 = 4"
proof -
  have "drop_bit 76 (uuid4 r) AND mask 4 = 4 AND mask 4"
    unfolding uuid4_fields by (rule field_set) simp
  then show ?thesis by (simp add: mask_eq_exp_minus_1)
qed

lemma variant_bits: "drop_bit 62 (uuid4 r) AND 3 = 2"
proof -
  have "drop_bit 62 (uuid4 r) AND mask 2 =
        drop_bit 62 ((r AND NOT (push_bit 62 (mask 2))) OR push_bit 62 (2 AND mask 2)) AND mask 2"
    unfolding uuid4_fields by (rule field_keep) simp
  also have "\<dots> = 2 AND mask 2" by (rule field_set) simp
  finally show ?thesis by (simp add: mask_eq_exp_minus_1)
qed

lemma nibble_less:
  fixes x :: "128 word"
  shows "unat (x AND 15) < 16"
proof -
  have "x AND 15 = x AND mask 4" by (simp add: mask_eq_exp_minus_1)
  then show ?thesis using and_mask_less'[of 4 x] by (simp add: word_less_nat_alt)
qed

lemma variant_nibble: "unat (drop_bit 60 (uuid4 r) AND 15) \<in> {8, 9, 10, 11}"
proof -
  define x where "x = drop_bit 60 (uuid4 r) AND 15"
  have "drop_bit 2 (drop_bit 60 (uuid4 r) AND mask (2 + 2)) =
        drop_bit (60 + 2) (uuid4 r) AND mask 2"
    by (rule drop_bit_field)
  then have "drop_bit 2 x = 2"
    using variant_bits[of r] by (simp add: x_def mask_eq_exp_minus_1)
  then have "unat (drop_bit 2 x) = 2" by simp
  then have "unat x div 4 = 2" by (simp add: unat_drop_bit_eq drop_bit_eq_div unat_div)
  then have "unat x \<in> {8, 9, 10, 11}" by auto
  then show ?thesis by (simp add: x_def)
qed

lemma is_hex_hex_digit: "d < 16 \<Longrightarrow> is_hex (hex_digit d)"
  unfolding is_hex_def hex_digit_def by (rule nth_mem) simp

lemma length_hex32: "length (hex32 w) = 32"
  by (simp add: hex32_def)

lemma nth_hex32: "i < 32 \<Longrightarrow> hex32 w ! i = hex_digit (unat (drop_bit (4 * (31 - i)) w AND 15))"
  by (simp add: hex32_def)

lemma hex32_all_hex: "list_all is_hex (hex32 w)"
  by (simp add: hex32_def list_all_iff is_hex_hex_digit nibble_less)

lemma hex32_version: "hex32 (uuid4 r) ! 12 = CHR ''4''"
  by (simp add: nth_hex32 version_nibble hex_digit_def)

lemma hex32_variant: "hex32 (uuid4 r) ! 16 \<in> set ''89ab''"
  using variant_nibble[of r] by (auto simp add: nth_hex32 hex_digit_def)

lemma list_all_take: "list_all P xs \<Longrightarrow> list_all P (take n xs)"
  by (auto simp: list_all_iff dest: in_set_takeD)

lemma list_all_drop: "list_all P xs \<Longrightarrow> list_all P (drop n xs)"
  by (auto simp: list_all_iff dest: in_set_dropD)

lemma str_uuid_uuid4: "is_uuid4_string (str_uuid (uuid4 r))"
proof -
  define hex where "hex = hex32 (uuid4 r)"
  have l: "length hex = 32" by (simp add: hex_def length_hex32)
  have a: "list_all is_hex hex" by (simp add: hex_def hex32_all_hex)
  have v: "hex ! 12 = CHR ''4''" by (simp add: hex_def hex32_version)
  have w: "hex ! 16 \<in> set ''89ab''" unfolding hex_def by (rule hex32_variant)
  have s: "str_uuid (uuid4 r) = take 8 hex @ ''-'' @ take 4 (drop 8 hex) @ ''-'' @
      take 4 (drop 12 hex) @ ''-'' @ take 4 (drop 16 hex) @ ''-'' @ drop 20 hex"
    by (simp add: str_uuid_def Let_def hex_def)
  show ?thesis
    unfolding is_uuid4_string_def s
    using l a v w by (simp add: nth_append list_all_take list_all_drop)
qed

text \<open>
  Claim C7. Whenever the loop changes the \<open>id\<close> of an element, the new \<open>id\<close> is the
  configured prefix, then the text of a version-4 UUID made from one of the draws (36
  characters of the shape \<open>is_uuid4_string\<close>), then the configured suffix.
\<close>

theorem assigned_id_format:
  assumes "i < length (descendants soup)" and "descendants soup ! i = Tag nm at cs"
    and "descendants (fst (for_descendants self rand n soup)) ! i = Tag nm' at' cs'"
    and "get at' ''id'' \<noteq> get at ''id''"
  shows "\<exists>k. get at' ''id'' = Some (prefix self @ str_uuid (uuid4 (rand k)) @ suffix self) \<and>
             is_uuid4_string (str_uuid (uuid4 (rand k)))"
proof -
  from nth_descendants_Tag[OF assms(1,2), of self rand n] obtain k cs'' where
    out: "descendants (fst (for_descendants self rand n soup)) ! i =
           Tag nm (if \<not> is_valid_tag self (Tag nm at cs) \<or> truthy (get at ''id'') then at
                   else setitem at ''id'' (new_id self (rand k))) cs''" by blast
  with assms(3,4) have "at' = setitem at ''id'' (new_id self (rand k))"
    by (auto split: if_splits)
  then have "get at' ''id'' = Some (prefix self @ str_uuid (uuid4 (rand k)) @ suffix self)"
    by (simp add: get_setitem new_id_def)
  with str_uuid_uuid4[of "rand k"] show ?thesis by blast
qed

theorem assigned_id_format_witness:
  "1 < length (descendants example_soup) \<and>
   descendants example_soup ! 1 =
     Tag ''body'' [] [Tag ''div'' [] [NavigableString ''x''],
                      Tag ''p'' [(''id'', ''k'')] [NavigableString ''y'']] \<and>
   descendants (fst (for_descendants (init\<lparr>prefix := ''x-'', suffix := ''-y''\<rparr>) example_rand 0
      example_soup)) ! 1 =
     Tag ''body'' [(''id'', new_id (init\<lparr>prefix := ''x-'', suffix := ''-y''\<rparr>) (example_rand 0))]
       [Tag ''div'' [(''id'', new_id (init\<lparr>prefix := ''x-'', suffix := ''-y''\<rparr>) (example_rand 1))]
          [NavigableString ''x''],
        Tag ''p'' [(''id'', ''k'')] [NavigableString ''y'']] \<and>
   (\<exists>k. new_id (init\<lparr>prefix := ''x-'', suffix := ''-y''\<rparr>) (example_rand 0) =
          ''x-'' @ str_uuid (uuid4 (example_rand k)) @ ''-y'' \<and>
        is_uuid4_string (str_uuid (uuid4 (example_rand k))))"
proof -
  let ?self = "init\<lparr>prefix := ''x-'', suffix := ''-y''\<rparr>"
  have h1: "1 < length (descendants example_soup)"
    by (simp add: example_soup_def)
  have h2: "descendants example_soup ! 1 =
     Tag ''body'' [] [Tag ''div'' [] [NavigableString ''x''],
                      Tag ''p'' [(''id'', ''k'')] [NavigableString ''y'']]"
    by (simp add: example_soup_def)
  have h3: "descendants (fst (for_descendants ?self example_rand 0 example_soup)) ! 1 =
     Tag ''body'' [(''id'', new_id ?self (example_rand 0))]
       [Tag ''div'' [(''id'', new_id ?self (example_rand 1))] [NavigableString ''x''],
        Tag ''p'' [(''id'', ''k'')] [NavigableString ''y'']]"
    by (simp add: example_soup_def init_def EXCLUDE_TAGS_def INCLUDE_TAGS_def contains_def
          lower_def lower_char_def get_def setitem_def)
  have h4: "get [(''id'', new_id ?self (example_rand 0))] ''id'' \<noteq> get [] ''id''"
    by (simp add: get_def)
  show ?thesis
    using h1 h2 h3 assigned_id_format[OF h1 h2 h3 h4]
    by (simp add: get_def init_def)
qed

text \<open>The text of one identifier, computed: random bytes all zero, prefix \<open>x-\<close>, suffix \<open>-y\<close>.\<close>

lemma new_id_example:
  "new_id (init\<lparr>prefix := ''x-'', suffix := ''-y''\<rparr>) 0 =
   ''x-00000000-0000-4000-8000-000000000000-y''"
  by (simp add: new_id_def str_uuid_def uuid4_def hex32_def hex_digit_def upt_rec init_def)

section \<open>Letter case of tag names\<close>

lemma lower_lower: "lower (lower s) = lower s"
  by (simp add: lower_def lower_char_def Let_def)

text \<open>
  Claim C2, amended. The tag test lower-cases the name of the element and compares it
  with the configured names as they are. So two elements whose names differ only in
  letter case pass or fail together, and the only configured names that count, in
  \<open>exclude_tags\<close> and in \<open>include_tags\<close>, are those already in lower case.
\<close>

theorem tag_names_lowered_on_element_only:
  "(lower nm = lower nm' \<longrightarrow>
      is_valid_tag self (Tag nm at cs) = is_valid_tag self (Tag nm' at' cs')) \<and>
   is_valid_tag self (Tag nm at cs) =
     (lower nm \<notin> {e \<in> elems (exclude_tags self). lower e = e} \<and>
      (include_tags self = PyList [''*''] \<or>
       lower nm \<in> {e \<in> elems (include_tags self). lower e = e}))"
  by (auto simp: contains_def INCLUDE_TAGS_def lower_lower)

theorem tag_names_lowered_on_element_only_witness:
  "lower ''DIV'' = lower ''div'' \<and>
   is_valid_tag (init\<lparr>exclude_tags := PyList [''div'']\<rparr>) (Tag ''DIV'' [] []) =
   is_valid_tag (init\<lparr>exclude_tags := PyList [''div'']\<rparr>) (Tag ''div'' [(''class'', ''a'')] []) \<and>
   \<not> is_valid_tag (init\<lparr>exclude_tags := PyList [''div'']\<rparr>) (Tag ''DIV'' [] [])"
proof -
  have h: "lower ''DIV'' = lower ''div''"
    by (simp add: lower_def lower_char_def char_of_def bit_Suc_0_iff)
  show ?thesis
    using h tag_names_lowered_on_element_only[of "''DIV''" "''div''"
        "init\<lparr>exclude_tags := PyList [''div'']\<rparr>" "[]" "[]" "[(''class'', ''a'')]" "[]"]
    by (simp add: contains_def lower_def lower_char_def char_of_def bit_Suc_0_iff)
qed

text \<open>
  Claim C2 as stated fails: with \<open>exclude_tags = ["DIV"]\<close> a \<open>div\<close> element passes the
  tag test of the code, while the test with both sides lower-cased rejects it.
\<close>

theorem upper_case_exclude_entry_counterexample:
  "is_valid_tag (init\<lparr>exclude_tags := PyList [''DIV'']\<rparr>) (Tag ''div'' [] []) \<and>
   \<not> is_valid_tag_lowering_both (init\<lparr>exclude_tags := PyList [''DIV'']\<rparr>) (Tag ''div'' [] [])"
  by (simp add: init_def INCLUDE_TAGS_def contains_def lower_def lower_char_def char_of_def
        bit_Suc_0_iff)

section \<open>Extensions\<close>

lemma endswith_iff: "endswith s t \<longleftrightarrow> (\<exists>stem. s = stem @ t)"
proof
  assume "endswith s t"
  then have "s = take (length s - length t) s @ t"
    by (metis append_take_drop_id endswith_def)
  then show "\<exists>stem. s = stem @ t" ..
next
  assume "\<exists>stem. s = stem @ t"
  then show "endswith s t" by (auto simp: endswith_def)
qed

lemma is_valid_extension_loop_iff:
  "is_valid_extension_loop exts filename \<longleftrightarrow>
     (\<exists>ext \<in> set exts. endswith (lower filename)
        ((if CHR ''.'' \<notin> set ext then ''.'' else []) @ lower ext))"
  by (induction exts) (auto simp: Let_def)

text \<open>
  Claim C3, amended. A file qualifies exactly when its lower-cased path ends with one of
  the configured extensions in lower case, where a dot is put in front of an extension
  that contains no dot and an extension that contains a dot, at its start or anywhere
  else, is taken as it is.
\<close>

theorem extension_match:
  "is_valid_extension self filename \<longleftrightarrow>
     (\<exists>ext \<in> set (extensions self). \<exists>stem.
        lower filename = stem @ (if CHR ''.'' \<in> set ext then lower ext else ''.'' @ lower ext))"
  unfolding is_valid_extension_def is_valid_extension_loop_iff endswith_iff
  by (intro bex_cong refl) auto

theorem extension_match_witness:
  "is_valid_extension init ''./sub/Page.HTML'' \<and>
   (\<exists>ext \<in> set (extensions init). \<exists>stem.
      lower ''./sub/Page.HTML'' =
        stem @ (if CHR ''.'' \<in> set ext then lower ext else ''.'' @ lower ext))"
proof -
  have "is_valid_extension init ''./sub/Page.HTML''"
    by (simp add: is_valid_extension_def init_def EXTENSIONS_def endswith_def lower_def
          lower_char_def char_of_def bit_Suc_0_iff)
  then show ?thesis
    using extension_match[of init "''./sub/Page.HTML''"] by simp
qed

text \<open>
  Claim C3 as stated fails for an extension with a dot inside: with
  \<open>extensions = ["min.html"]\<close> the file \<open>./admin.html\<close> qualifies, though its path does
  not end with \<open>.min.html\<close>.
\<close>

theorem extension_with_inner_dot_counterexample:
  "is_valid_extension (init\<lparr>extensions := [''min.html'']\<rparr>) ''./admin.html'' \<and>
   \<not> is_valid_extension_leading_dot (init\<lparr>extensions := [''min.html'']\<rparr>) ''./admin.html''"
  by (simp add: is_valid_extension_def is_valid_extension_leading_dot_def with_leading_dot_def
        endswith_def lower_def lower_char_def)

section \<open>Discovery\<close>

lemma walk_dirs_contains:
  "(d, Directory es') \<in> set es \<Longrightarrow>
   set (walk keep (join dirpath d) es') \<subseteq> set (walk_dirs keep dirpath es)"
proof (induction es)
  case Nil
  then show ?case by simp
next
  case (Cons e es)
  obtain d0 x where e: "e = (d0, x)" by (cases e)
  show ?case
  proof (cases x)
    case File
    with Cons e show ?thesis by auto
  next
    case (Directory es0)
    with Cons e show ?thesis by auto
  next
    case Opaque
    with Cons e show ?thesis by auto
  qed
qed

text \<open>
  A file below the root is in the file list of the triple that \<open>os.walk\<close> yields for its
  directory, when the walk is not pruned.
\<close>

lemma walk_finds:
  "file_at es ds f \<Longrightarrow>
   \<exists>t \<in> set (walk True dirpath es). fst t = foldl join dirpath ds \<and> f \<in> set (snd (snd t))"
proof (induction ds arbitrary: es dirpath)
  case Nil
  then have "f \<in> set (filenames es)" by (force simp: filenames_def)
  then show ?case by simp
next
  case (Cons d ds)
  then obtain e where e: "e \<in> set es" "fst e = d"
      "case snd e of Directory es' \<Rightarrow> file_at es' ds f | _ \<Rightarrow> False"
    by (auto simp: list_ex_iff)
  then obtain es' where s: "snd e = Directory es'" and a: "file_at es' ds f"
    by (cases "snd e") auto
  have "e = (d, Directory es')"
    using e(2) s by (simp add: prod_eq_iff)
  with e(1) have m: "(d, Directory es') \<in> set es" by simp
  from Cons.IH[OF a, of "join dirpath d"] obtain t where
    t: "t \<in> set (walk True (join dirpath d) es')" "fst t = foldl join (join dirpath d) ds"
       "f \<in> set (snd (snd t))" by blast
  from t(1) walk_dirs_contains[OF m, of True dirpath] have "t \<in> set (walk True dirpath es)"
    by auto
  with t show ?case by auto
qed

text \<open>
  Claim C6. With \<open>recursive\<close> off, the files found are the files of the configured
  directory itself whose joined path has a configured extension (none when the path names
  no directory), and nothing from any subdirectory. With \<open>recursive\<close> on, every file
  with a configured extension that sits in a subdirectory, at whatever depth, is found as
  well.
\<close>

theorem discovery_recursive_flag:
  "(\<not> recursive self \<longrightarrow>
      find_file_names self fs =
        (case entry_at fs (path self) of
           Some (Directory es) \<Rightarrow>
             filter (is_valid_extension self) (map (join (path self)) (filenames es))
         | _ \<Rightarrow> [])) \<and>
   (recursive self \<longrightarrow>
      (\<forall>es ds f. entry_at fs (path self) = Some (Directory es) \<and> file_at es ds f \<and>
         is_valid_extension self (join (foldl join (path self) ds) f)
         \<longrightarrow> join (foldl join (path self) ds) f \<in> set (find_file_names self fs)))"
proof (intro conjI impI allI)
  assume "\<not> recursive self"
  then show "find_file_names self fs =
      (case entry_at fs (path self) of
         Some (Directory es) \<Rightarrow>
           filter (is_valid_extension self) (map (join (path self)) (filenames es))
       | _ \<Rightarrow> [])"
    by (simp add: find_file_names_def split: option.splits entry.splits)
next
  fix es ds f
  assume r: "recursive self"
    and "entry_at fs (path self) = Some (Directory es) \<and> file_at es ds f \<and>
         is_valid_extension self (join (foldl join (path self) ds) f)"
  then have e: "entry_at fs (path self) = Some (Directory es)"
    and a: "file_at es ds f"
    and v: "is_valid_extension self (join (foldl join (path self) ds) f)" by simp_all
  from walk_finds[OF a, of "path self"] obtain t where
    t: "t \<in> set (walk True (path self) es)" "fst t = foldl join (path self) ds"
       "f \<in> set (snd (snd t))" by blast
  obtain root directories files where tt: "t = (root, directories, files)" by (cases t)
  with t v have "join (foldl join (path self) ds) f \<in>
      set (filter (is_valid_extension self) (map (join root) files))" by auto
  with t(1) tt e r show "join (foldl join (path self) ds) f \<in> set (find_file_names self fs)"
    by (force simp: find_file_names_def)
qed

theorem discovery_recursive_flag_witness:
  "\<not> recursive init \<and>
   find_file_names init example_fs = [''./index.html''] \<and>
   recursive (init\<lparr>recursive := True\<rparr>) \<and>
   entry_at example_fs (path (init\<lparr>recursive := True\<rparr>)) = Some (Directory example_listing) \<and>
   file_at example_listing [''sub'', ''deep''] ''a.xhtml'' \<and>
   is_valid_extension (init\<lparr>recursive := True\<rparr>) ''./sub/deep/a.xhtml'' \<and>
   ''./sub/deep/a.xhtml'' \<in> set (find_file_names (init\<lparr>recursive := True\<rparr>) example_fs)"
proof -
  let ?rec = "init\<lparr>recursive := True\<rparr>"
  have h: "entry_at example_fs (path init) = Some (Directory example_listing)"
    by (simp add: example_fs_def init_def)
  have h': "entry_at example_fs (path ?rec) = Some (Directory example_listing)"
    by (simp add: example_fs_def init_def)
  have n: "\<not> recursive init" by (simp add: init_def)
  have f: "filter (is_valid_extension init) (map (join (path init)) (filenames example_listing)) =
           [''./index.html'']"
    by (simp add: example_listing_def filenames_def init_def EXTENSIONS_def join_def
          is_valid_extension_def endswith_def lower_def lower_char_def)
  have a: "file_at example_listing [''sub'', ''deep''] ''a.xhtml''"
    by (simp add: example_listing_def)
  have j: "join (foldl join (path ?rec) [''sub'', ''deep'']) ''a.xhtml'' = ''./sub/deep/a.xhtml''"
    by (simp add: init_def join_def endswith_def)
  have v: "is_valid_extension ?rec ''./sub/deep/a.xhtml''"
    by (simp add: init_def EXTENSIONS_def is_valid_extension_def endswith_def lower_def
          lower_char_def)
  have d: "find_file_names init example_fs = [''./index.html'']"
    using discovery_recursive_flag[of init example_fs] n h f by simp
  have "\<forall>es ds f. entry_at example_fs (path ?rec) = Some (Directory es) \<and> file_at es ds f \<and>
           is_valid_extension ?rec (join (foldl join (path ?rec) ds) f) \<longrightarrow>
           join (foldl join (path ?rec) ds) f \<in> set (find_file_names ?rec example_fs)"
    using discovery_recursive_flag[of ?rec example_fs] by simp
  then have "entry_at example_fs (path ?rec) = Some (Directory example_listing) \<and>
           file_at example_listing [''sub'', ''deep''] ''a.xhtml'' \<and>
           is_valid_extension ?rec (join (foldl join (path ?rec) [''sub'', ''deep'']) ''a.xhtml'') \<longrightarrow>
           join (foldl join (path ?rec) [''sub'', ''deep'']) ''a.xhtml''
             \<in> set (find_file_names ?rec example_fs)"
    by blast
  with h' a v have r: "''./sub/deep/a.xhtml'' \<in> set (find_file_names ?rec example_fs)"
    unfolding j by blast
  from h' n d a v r show ?thesis by simp
qed

text \<open>The two runs of the discovery on the example tree, computed.\<close>

lemma find_file_names_example:
  "find_file_names init example_fs = [''./index.html'']"
  "find_file_names (init\<lparr>recursive := True\<rparr>) example_fs =
     [''./index.html'', ''./sub/page.HTML'', ''./sub/deep/a.xhtml'']"
  by (simp_all add: find_file_names_def example_fs_def example_listing_def init_def
        EXTENSIONS_def dirnames_def filenames_def join_def is_valid_extension_def endswith_def
        lower_def lower_char_def char_of_def bit_Suc_0_iff)



text \<open>
  A run on the example tree with the defaults: one file is found, read, transformed and
  written back.
\<close>

lemma execute_example:
  "map_sum id (\<lambda>fs'. read init fs' ''./index.html'')
     (execute example_BeautifulSoup example_str_soup init example_rand example_fs) =
   Inr (Inr ''transformed'')"
  unfolding execute_def find_file_names_example(1)
  using example_soup_changes
  by (auto simp: read_def save_def example_fs_def include_id_def example_BeautifulSoup_def
        example_str_soup_def split: prod.splits)

end
